theory Spec2Isabelle
  imports Complex_Main "HOL-Library.Multiset"
begin

section \<open>Python values, errors and the outside world\<close>

text \<open>
  The values that travel between the program and the monitoring SDK are JSON-like
  Python objects. A \<open>dict\<close> with string keys is an association list in insertion
  order; a keyword-argument list of an SDK call is the same thing. Thresholds and
  periods are passed through untouched, so a float is carried as the real number it
  denotes and no floating-point arithmetic is ever performed on it.
\<close>

datatype pyval =
    PyNone
  | PyBool bool
  | PyInt int
  | PyFloat real
  | PyStr string
  | PyList "pyval list"
  | PyDict "(string \<times> pyval) list"

type_synonym kwargs = "(string \<times> pyval) list"

text \<open>
  \<open>SdkError\<close> stands for whatever exception the SDK raises (a client error, a
  parameter validation error, a network error), \<open>ValueError\<close>, \<open>KeyError\<close> and
  \<open>TypeError\<close> for the Python built-in exceptions of the same name.
\<close>

datatype error = KeyError string | TypeError | ValueError | SdkError string

text \<open>The three operations of the CloudWatch client that the program calls.\<close>

datatype request =
    PutMetricAlarm kwargs
  | DescribeAlarms kwargs
  | DeleteAlarms kwargs

text \<open>
  What \<open>LOG.info\<close> is given: a string that the program has built completely, an
  f-string whose replacement field is an object (its text is the literal part followed
  by Python's rendering of the object, which is not modelled), or an object.
\<close>

datatype log_arg = Message string | FString string pyval | Value pyval

text \<open>The two kinds of effect a function of \<open>alarms.py\<close> has.\<close>

datatype action = LogInfo log_arg | Request request

text \<open>
  The world outside the program: the state of the monitoring service (of any type
  \<open>'c\<close>), the requests sent to it so far, oldest first, and the records given to the
  logger, oldest first.
\<close>

record 'c world =
  cloud :: 'c
  sent :: "request list"
  logged :: "log_arg list"

text \<open>
  The SDK client \<open>cloudwatch_client\<close> is a parameter of the model: a function that
  answers a request in a given state of the service with a response or a raised
  error, and the next state of the service.
\<close>

type_synonym 'c client = "request \<Rightarrow> 'c \<Rightarrow> (error + pyval) \<times> 'c"

definition perform :: "'c client \<Rightarrow> action \<Rightarrow> 'c world \<Rightarrow> (error + pyval) \<times> 'c world" where
  "perform cl a w =
     (case a of
        LogInfo m \<Rightarrow> (Inr PyNone, w\<lparr>logged := logged w @ [m]\<rparr>)
      | Request rq \<Rightarrow>
          (case cl rq (cloud w) of
             (r, c') \<Rightarrow> (r, w\<lparr>cloud := c', sent := sent w @ [rq]\<rparr>)))"

text \<open>
  A straight-line function body is the list of its effects in program order. Running
  it stops at the first effect that raises; otherwise the value is that of the last
  effect (\<open>None\<close> for an empty body).
\<close>

fun run_script :: "'c client \<Rightarrow> action list \<Rightarrow> 'c world \<Rightarrow> (error + pyval) \<times> 'c world" where
  "run_script cl [] w = (Inr PyNone, w)"
| "run_script cl [a] w = perform cl a w"
| "run_script cl (a # b # bs) w =
     (case perform cl a w of
        (Inl e, w') \<Rightarrow> (Inl e, w')
      | (Inr _, w') \<Rightarrow> run_script cl (b # bs) w')"

text \<open>The requests and the alarm definitions that occur in a function body.\<close>

fun requests_of :: "action list \<Rightarrow> request list" where
  "requests_of [] = []"
| "requests_of (LogInfo m # as) = requests_of as"
| "requests_of (Request rq # as) = rq # requests_of as"

fun alarm_definitions :: "action list \<Rightarrow> kwargs list" where
  "alarm_definitions [] = []"
| "alarm_definitions (Request (PutMetricAlarm kw) # as) = kw # alarm_definitions as"
| "alarm_definitions (a # as) = alarm_definitions as"

section \<open>Module \<open>alarms.py\<close>: configuration\<close>

type_synonym environ = "string \<Rightarrow> string option"

definition os_getenv :: "environ \<Rightarrow> string \<Rightarrow> pyval" where
  "os_getenv env k = (case env k of None \<Rightarrow> PyNone | Some v \<Rightarrow> PyStr v)"

definition SNS_ALARMS_TOPIC :: "environ \<Rightarrow> pyval" where
  "SNS_ALARMS_TOPIC env = os_getenv env ''SNS_ALARMS_TOPIC''"

definition MAX_CONCURRENCY :: int where
  "MAX_CONCURRENCY = 3"

section \<open>Module \<open>alarms.py\<close>: the two alarm definitions\<close>

definition create_lambda_errors_alarm :: "environ \<Rightarrow> string \<Rightarrow> pyval \<Rightarrow> pyval \<Rightarrow> action list" where
  "create_lambda_errors_alarm env func_name threshold period =
     (let alarm_name = ''LambdaError_'' @ func_name in
      [LogInfo (Message (''Creating alarm '' @ alarm_name)),
       Request (PutMetricAlarm
         [(''AlarmName'', PyStr alarm_name),
          (''Period'', period),
          (''EvaluationPeriods'', PyInt 1),
          (''MetricName'', PyStr ''Errors''),
          (''Namespace'', PyStr ''AWS/Lambda''),
          (''Statistic'', PyStr ''Sum''),
          (''ComparisonOperator'', PyStr ''GreaterThanThreshold''),
          (''Threshold'', threshold),
          (''ActionsEnabled'', PyBool True),
          (''AlarmDescription'', PyStr (''Alarm for lambda '' @ func_name @ '' errors'')),
          (''Dimensions'',
             PyList [PyDict [(''Name'', PyStr ''FunctionName''), (''Value'', PyStr func_name)]]),
          (''AlarmActions'', PyList [SNS_ALARMS_TOPIC env])])])"

definition create_lambda_throttles_alarm :: "environ \<Rightarrow> string \<Rightarrow> pyval \<Rightarrow> pyval \<Rightarrow> action list" where
  "create_lambda_throttles_alarm env func_name threshold period =
     (let alarm_name = ''LambdaThrottles_'' @ func_name in
      [LogInfo (Message (''Creating alarm '' @ alarm_name)),
       Request (PutMetricAlarm
         [(''AlarmName'', PyStr alarm_name),
          (''EvaluationPeriods'', PyInt 1),
          (''DatapointsToAlarm'', PyInt 1),
          (''Metrics'', PyList
             [PyDict
                [(''Id'', PyStr ''throttles_pc''),
                 (''Expression'', PyStr ''(throttles / invocations) * 100''),
                 (''Label'', PyStr ''% Throttles''),
                 (''ReturnData'', PyBool True)],
              PyDict
                [(''Id'', PyStr ''throttles''),
                 (''MetricStat'', PyDict
                    [(''Metric'', PyDict
                        [(''Namespace'', PyStr ''AWS/Lambda''),
                         (''MetricName'', PyStr ''Throttles''),
                         (''Dimensions'', PyList
                            [PyDict [(''Name'', PyStr ''FunctionName''),
                                     (''Value'', PyStr func_name)]])]),
                     (''Period'', period),
                     (''Stat'', PyStr ''Sum'')]),
                 (''ReturnData'', PyBool False)],
              PyDict
                [(''Id'', PyStr ''invocations''),
                 (''MetricStat'', PyDict
                    [(''Metric'', PyDict
                        [(''Namespace'', PyStr ''AWS/Lambda''),
                         (''MetricName'', PyStr ''Invocations''),
                         (''Dimensions'', PyList
                            [PyDict [(''Name'', PyStr ''FunctionName''),
                                     (''Value'', PyStr func_name)]])]),
                     (''Period'', period),
                     (''Stat'', PyStr ''Sum'')]),
                 (''ReturnData'', PyBool False)]]),
          (''ComparisonOperator'', PyStr ''GreaterThanThreshold''),
          (''Threshold'', threshold),
          (''ActionsEnabled'', PyBool True),
          (''AlarmDescription'',
             PyStr (''Alarm for Lambda '' @ func_name @ '' throttles/invocations'')),
          (''AlarmActions'', PyList [SNS_ALARMS_TOPIC env])])])"

text \<open>
  \<open>create_lambda_alarms\<close> calls the two functions one after the other, with the
  error period for both, discards what they return and returns \<open>None\<close>.
\<close>

definition create_lambda_alarms :: "environ \<Rightarrow> string \<Rightarrow> pyval \<Rightarrow> pyval \<Rightarrow> pyval \<Rightarrow> action list" where
  "create_lambda_alarms env func_name errors_threshold errors_period throttles_threshold =
     create_lambda_errors_alarm env func_name errors_threshold errors_period @
     create_lambda_throttles_alarm env func_name throttles_threshold errors_period"

text \<open>
  A function without a \<open>return\<close> statement returns \<open>None\<close> when its body has run
  to its end; an exception raised in the body leaves it unchanged.
\<close>

definition run_procedure :: "'c client \<Rightarrow> action list \<Rightarrow> 'c world \<Rightarrow> (error + pyval) \<times> 'c world" where
  "run_procedure cl body w =
     (case run_script cl body w of
        (Inl e, w') \<Rightarrow> (Inl e, w')
      | (Inr _, w') \<Rightarrow> (Inr PyNone, w'))"

section \<open>Reading a payload\<close>

fun dict_get :: "pyval \<Rightarrow> string \<Rightarrow> pyval option" where
  "dict_get (PyDict d) k = map_of d k"
| "dict_get _ k = None"

fun at_path :: "pyval \<Rightarrow> string list \<Rightarrow> pyval option" where
  "at_path v [] = Some v"
| "at_path v (k # ks) = (case dict_get v k of None \<Rightarrow> None | Some u \<Rightarrow> at_path u ks)"

definition function_name_dimension :: "string \<Rightarrow> pyval" where
  "function_name_dimension func_name =
     PyList [PyDict [(''Name'', PyStr ''FunctionName''), (''Value'', PyStr func_name)]]"

section \<open>Module \<open>alarms.py\<close>: looking an alarm up and deleting it\<close>

text \<open>
  \<open>obj[key]\<close> with a string key: a \<open>dict\<close> gives the value or raises \<open>KeyError\<close>; a
  list or a string wants an integer index, and the other values have no subscript:
  \<open>TypeError\<close>.
\<close>

fun subscript :: "pyval \<Rightarrow> string \<Rightarrow> error + pyval" where
  "subscript (PyDict d) k = (case map_of d k of None \<Rightarrow> Inl (KeyError k) | Some v \<Rightarrow> Inr v)"
| "subscript _ k = Inl TypeError"

text \<open>
  What a \<open>for\<close> clause iterates over: the elements of a list, the keys of a
  \<open>dict\<close>, the characters of a string; the other values are not iterable.
\<close>

fun py_iter :: "pyval \<Rightarrow> error + pyval list" where
  "py_iter (PyList xs) = Inr xs"
| "py_iter (PyDict d) = Inr (map (\<lambda>(k, _). PyStr k) d)"
| "py_iter (PyStr s) = Inr (map (\<lambda>c. PyStr [c]) s)"
| "py_iter _ = Inl TypeError"

text \<open>The truth value of an object in an \<open>if\<close> test.\<close>

fun truthy :: "pyval \<Rightarrow> bool" where
  "truthy PyNone = False"
| "truthy (PyBool b) = b"
| "truthy (PyInt i) = (i \<noteq> 0)"
| "truthy (PyFloat r) = (r \<noteq> 0)"
| "truthy (PyStr s) = (s \<noteq> [])"
| "truthy (PyList xs) = (xs \<noteq> [])"
| "truthy (PyDict d) = (d \<noteq> [])"

text \<open>
  \<open>next((_ for _ in xs if _['AlarmName'] == alarm_name), None)\<close>: the generator is
  pulled once, so the elements are tested in order up to the first that passes, and an
  element after it is never looked at; a test that raises ends the search with its
  error. A string is equal to \<open>alarm_name\<close> only when it is the same string, and a
  value of another type is never equal to it.
\<close>

fun next_named :: "string \<Rightarrow> pyval list \<Rightarrow> error + pyval" where
  "next_named alarm_name [] = Inr PyNone"
| "next_named alarm_name (x # xs) =
     (case subscript x ''AlarmName'' of
        Inl e \<Rightarrow> Inl e
      | Inr n \<Rightarrow> if n = PyStr alarm_name then Inr x else next_named alarm_name xs)"

definition get_existing_alarm :: "'c client \<Rightarrow> string \<Rightarrow> 'c world \<Rightarrow> (error + pyval) \<times> 'c world" where
  "get_existing_alarm cl func_name w =
     (let alarm_name = ''LambdaError_'' @ func_name in
      case perform cl (Request (DescribeAlarms [(''AlarmNames'', PyList [PyStr alarm_name])])) w of
        (Inl e, w') \<Rightarrow> (Inl e, w')
      | (Inr alarms, w') \<Rightarrow>
          (case subscript alarms ''MetricAlarms'' of
             Inl e \<Rightarrow> (Inl e, w')
           | Inr metric_alarms \<Rightarrow>
               (case py_iter metric_alarms of
                  Inl e \<Rightarrow> (Inl e, w')
                | Inr xs \<Rightarrow> (next_named alarm_name xs, w'))))"

definition delete_alarms :: "'c client \<Rightarrow> string \<Rightarrow> 'c world \<Rightarrow> (error + pyval) \<times> 'c world" where
  "delete_alarms cl func_name w =
     (case get_existing_alarm cl func_name w of
        (Inl e, w1) \<Rightarrow> (Inl e, w1)
      | (Inr existing_alarm, w1) \<Rightarrow>
          if truthy existing_alarm then
            (case subscript existing_alarm ''AlarmName'' of
               Inl e \<Rightarrow> (Inl e, w1)
             | Inr n \<Rightarrow>
                 (case perform cl (Request (DeleteAlarms [(''AlarmNames'', PyList [n])])) w1 of
                    (Inl e, w2) \<Rightarrow> (Inl e, w2)
                  | (Inr response, w2) \<Rightarrow> perform cl (LogInfo (Value response)) w2))
          else perform cl (LogInfo (Message (''No alarms found for function '' @ func_name))) w1)"

text \<open>
  Modelled from the spec: the monitoring service, which is not code of the repository.
  Alarms live solely in the service and are addressed by their name; putting an alarm
  under an existing name overwrites it; describing with a list of names returns the
  alarms that have one of these names; deleting removes the named alarms. A request
  without its name parameter is refused.
\<close>

type_synonym alarm_store = "(string \<times> kwargs) list"

definition alarms_named :: "alarm_store \<Rightarrow> pyval \<Rightarrow> pyval list" where
  "alarms_named store n = [PyDict kw. (m, kw) \<leftarrow> store, PyStr m = n]"

definition cloudwatch_service :: "alarm_store client" where
  "cloudwatch_service rq store =
     (case rq of
        PutMetricAlarm kw \<Rightarrow>
          (case map_of kw ''AlarmName'' of
             Some (PyStr n) \<Rightarrow> (Inr (PyDict []), [(m, a) \<leftarrow> store. m \<noteq> n] @ [(n, kw)])
           | _ \<Rightarrow> (Inl (SdkError ''ParamValidationError''), store))
      | DescribeAlarms kw \<Rightarrow>
          (case map_of kw ''AlarmNames'' of
             Some (PyList ns) \<Rightarrow>
               (Inr (PyDict [(''MetricAlarms'', PyList (concat (map (alarms_named store) ns)))]),
                store)
           | _ \<Rightarrow> (Inl (SdkError ''ParamValidationError''), store))
      | DeleteAlarms kw \<Rightarrow>
          (case map_of kw ''AlarmNames'' of
             Some (PyList ns) \<Rightarrow> (Inr (PyDict []), [(m, a) \<leftarrow> store. PyStr m \<notin> set ns])
           | _ \<Rightarrow> (Inl (SdkError ''ParamValidationError''), store)))"

text \<open>
  The shape of what the describe operation returns: each listed alarm is a \<open>dict\<close>
  with an \<open>AlarmName\<close>.
\<close>

definition has_alarm_name :: "string \<Rightarrow> pyval \<Rightarrow> bool" where
  "has_alarm_name n a = (dict_get a ''AlarmName'' = Some (PyStr n))"

fun is_alarm_description :: "pyval \<Rightarrow> bool" where
  "is_alarm_description (PyDict d) = (map_of d ''AlarmName'' \<noteq> None)"
| "is_alarm_description _ = False"

text \<open>
  A describe response that lists three alarms, the first of them under another name.
\<close>

definition listing_three :: "unit client" where
  "listing_three rq c =
     (Inr (PyDict [(''MetricAlarms'', PyList
        [PyDict [(''AlarmName'', PyStr ''LambdaError_g''), (''StateValue'', PyStr ''OK'')],
         PyDict [(''AlarmName'', PyStr ''LambdaError_f''), (''StateValue'', PyStr ''ALARM'')],
         PyDict [(''AlarmName'', PyStr ''LambdaError_f''), (''StateValue'', PyStr ''OK'')]])]), c)"

section \<open>Module \<open>watch_handler.py\<close>\<close>

text \<open>
  The handler \<open>watch_existing\<close> (its module documentation: "Lambda handler module
  invoked during stack create/update/delete. Adds monitoring and alarms for new/updated
  resouces"). Its body calls \<open>update_dashboard\<close>, a collaborator whose module is not
  among the sources and which is therefore a parameter here, acting on a world of any
  type, and returns an empty \<open>dict\<close>. The event and the context are not read. The
  decorator that adds the invocation context to the logger is outside the model.
\<close>

definition watch_existing ::
  "('w \<Rightarrow> (error + pyval) \<times> 'w) \<Rightarrow> pyval \<Rightarrow> pyval \<Rightarrow> 'w \<Rightarrow> (error + pyval) \<times> 'w" where
  "watch_existing update_dashboard event ctx w =
     (case update_dashboard w of
        (Inl e, w') \<Rightarrow> (Inl e, w')
      | (Inr _, w') \<Rightarrow> (Inr (PyDict []), w'))"

section \<open>Module \<open>alarms.py\<close>: the fan-out driver\<close>

text \<open>
  \<open>update_alarms\<close> submits one call of \<open>create_lambda_alarms\<close> per function name to a
  \<open>ThreadPoolExecutor\<close> and collects the futures with \<open>as_completed\<close>. The executor
  is library code; its behaviour is modelled as a transition system on the following
  state: the submitted calls that no worker has taken yet, in submission order; the
  calls that a worker is running, each with the effects it has still to perform; the
  results of the finished calls that the main thread has not collected yet; the error
  that the main thread is raising, if any; and the outside world.
\<close>

record 'c pool =
  queue :: "action list list"
  running :: "action list list"
  finished :: "(error + pyval) list"
  raised :: "error option"
  outside :: "'c world"

definition remove_nth :: "nat \<Rightarrow> 'a list \<Rightarrow> 'a list" where
  "remove_nth i xs = take i xs @ drop (Suc i) xs"

text \<open>
  The moves of the system. \<open>Start\<close>: a free worker takes the oldest submitted call.
  \<open>Work i\<close>: the worker of the \<open>i\<close>-th running call performs the next effect of
  that call; an effect that raises ends the call with the error as the result of its
  future, and a call with no effect left returns \<open>None\<close> (\<open>create_lambda_alarms\<close>
  has no \<open>return\<close> statement). \<open>Collect j\<close>: \<open>as_completed\<close> hands the \<open>j\<close>-th
  uncollected finished future to the loop body \<open>LOG.info(future.result())\<close>, which logs
  the value, or re-raises the error of the call; the exception leaves the loop, and the
  \<open>with\<close> block waits for the workers to run every remaining call before it lets the
  exception out of \<open>update_alarms\<close>.
\<close>

datatype move = Start | Work nat | Collect nat

definition moves :: "nat \<Rightarrow> 'c pool \<Rightarrow> move list" where
  "moves max_workers p =
     (if queue p \<noteq> [] \<and> length (running p) < max_workers then [Start] else []) @
     map Work [0..<length (running p)] @
     (if raised p = None then map Collect [0..<length (finished p)] else [])"

definition start :: "'c pool \<Rightarrow> 'c pool" where
  "start p =
     (case queue p of
        [] \<Rightarrow> p
      | t # q \<Rightarrow> p\<lparr>queue := q, running := running p @ [t]\<rparr>)"

definition work :: "'c client \<Rightarrow> nat \<Rightarrow> 'c pool \<Rightarrow> 'c pool" where
  "work cl i p =
     (if i < length (running p) then
        (case running p ! i of
           [] \<Rightarrow>
             p\<lparr>running := remove_nth i (running p), finished := finished p @ [Inr PyNone]\<rparr>
         | a # as \<Rightarrow>
             (case perform cl a (outside p) of
                (Inl e, w') \<Rightarrow>
                  p\<lparr>running := remove_nth i (running p), finished := finished p @ [Inl e],
                    outside := w'\<rparr>
              | (Inr _, w') \<Rightarrow> p\<lparr>running := (running p)[i := as], outside := w'\<rparr>))
      else p)"

definition collect :: "'c client \<Rightarrow> nat \<Rightarrow> 'c pool \<Rightarrow> 'c pool" where
  "collect cl j p =
     (if j < length (finished p) \<and> raised p = None then
        (case finished p ! j of
           Inl e \<Rightarrow> p\<lparr>finished := remove_nth j (finished p), raised := Some e\<rparr>
         | Inr v \<Rightarrow>
             p\<lparr>finished := remove_nth j (finished p),
               outside := snd (perform cl (LogInfo (Value v)) (outside p))\<rparr>)
      else p)"

fun apply_move :: "'c client \<Rightarrow> move \<Rightarrow> 'c pool \<Rightarrow> 'c pool" where
  "apply_move cl Start p = start p"
| "apply_move cl (Work i) p = work cl i p"
| "apply_move cl (Collect j) p = collect cl j p"

text \<open>
  Which move comes next is not determined by the program. A schedule is a list of
  numbers; at each step the next number selects one of the enabled moves, and when the
  list is used up the first enabled move is taken. Every interleaving of the workers
  and the main thread is the run of some schedule.
\<close>

definition pick :: "nat list \<Rightarrow> move list \<Rightarrow> move" where
  "pick sched ms = (case sched of [] \<Rightarrow> hd ms | c # cs \<Rightarrow> ms ! (c mod length ms))"

text \<open>
  The run of a schedule from a state: the list of the states passed through, which ends
  with the first state where no move is enabled; \<open>pool_run\<close> is that last state.
\<close>

function pool_trace :: "'c client \<Rightarrow> nat \<Rightarrow> nat list \<Rightarrow> 'c pool \<Rightarrow> 'c pool list" where
  "pool_trace cl max_workers sched p =
     p # (if moves max_workers p = [] then []
          else pool_trace cl max_workers (tl sched)
                 (apply_move cl (pick sched (moves max_workers p)) p))"
  by pat_completeness auto

definition pool_run :: "'c client \<Rightarrow> nat \<Rightarrow> nat list \<Rightarrow> 'c pool \<Rightarrow> 'c pool" where
  "pool_run cl max_workers sched p = last (pool_trace cl max_workers sched p)"


text \<open>The states that the system can reach from a given state.\<close>

inductive reachable :: "'c client \<Rightarrow> nat \<Rightarrow> 'c pool \<Rightarrow> 'c pool \<Rightarrow> bool"
  for cl :: "'c client" and max_workers :: nat and p :: "'c pool" where
  initial: "reachable cl max_workers p p"
| step: "reachable cl max_workers p q \<Longrightarrow> m \<in> set (moves max_workers q) \<Longrightarrow>
         reachable cl max_workers p (apply_move cl m q)"

text \<open>A measure of the work left, which every move decreases.\<close>

definition pool_size :: "'c pool \<Rightarrow> nat" where
  "pool_size p =
     sum_list (map (\<lambda>t. length t + 3) (queue p)) +
     sum_list (map (\<lambda>t. length t + 2) (running p)) +
     length (finished p)"

text \<open>
  \<open>update_alarms\<close>. The collaborator \<open>get_applicable_lambdas\<close> is not among the
  sources: what it returns (a mapping from function names to metadata) or raises is a
  parameter. An omitted argument takes its default. The executor refuses a worker count
  that is not positive. The model gives three things: what the call returns or raises,
  the world it leaves, and the states that its executor passed through (none when no
  executor was started), so that what happens inside the \<open>with\<close> block can be stated.
\<close>

definition returned :: "'a \<times> 'b \<times> 'c \<Rightarrow> 'a" where
  "returned x = fst x"

definition world_after :: "'a \<times> 'b \<times> 'c \<Rightarrow> 'b" where
  "world_after x = fst (snd x)"

definition states_of :: "'a \<times> 'b \<times> 'c \<Rightarrow> 'c" where
  "states_of x = snd (snd x)"

definition default_arg :: "pyval \<Rightarrow> pyval option \<Rightarrow> pyval" where
  "default_arg d a = (case a of None \<Rightarrow> d | Some v \<Rightarrow> v)"

definition submitted_calls ::
  "environ \<Rightarrow> (string \<times> pyval) list \<Rightarrow> pyval \<Rightarrow> pyval \<Rightarrow> pyval \<Rightarrow> action list list" where
  "submitted_calls env lambda_functions errors_threshold errors_period throttles_threshold =
     map (\<lambda>func_name. create_lambda_alarms env func_name errors_threshold errors_period
                         throttles_threshold)
         (map fst lambda_functions)"

definition executor :: "action list list \<Rightarrow> 'c world \<Rightarrow> 'c pool" where
  "executor wait_for w =
     \<lparr>queue = wait_for, running = [], finished = [], raised = None, outside = w\<rparr>"

definition update_alarms ::
  "'c client \<Rightarrow> environ \<Rightarrow> error + (string \<times> pyval) list \<Rightarrow> nat list \<Rightarrow>
   pyval option \<Rightarrow> pyval option \<Rightarrow> pyval option \<Rightarrow> 'c world \<Rightarrow>
   (error + pyval) \<times> 'c world \<times> 'c pool list" where
  "update_alarms cl env get_applicable_lambdas sched errors_threshold errors_period
     throttles_threshold w =
     (case get_applicable_lambdas of
        Inl e \<Rightarrow> (Inl e, w, [])
      | Inr lambda_functions \<Rightarrow>
          (let w1 = snd (perform cl
                      (LogInfo (FString ''Creating alarms for '' (PyDict lambda_functions))) w)
           in if MAX_CONCURRENCY \<le> 0 then (Inl ValueError, w1, [])
              else
                (let wait_for = submitted_calls env lambda_functions
                                  (default_arg (PyFloat 1.0) errors_threshold)
                                  (default_arg (PyInt 60) errors_period)
                                  (default_arg (PyFloat 1.0) throttles_threshold);
                     states = pool_trace cl (nat MAX_CONCURRENCY) sched (executor wait_for w1);
                     p = last states
                 in case raised p of
                      Some e \<Rightarrow> (Inl e, outside p, states)
                    | None \<Rightarrow> (Inr PyNone, outside p, states))))"


definition requests_in :: "action list list \<Rightarrow> request multiset" where
  "requests_in ts = (\<Sum>t\<leftarrow>ts. mset (requests_of t))"


text \<open>
  The quantities that the moves preserve. The requests that the calls not yet finished
  may still send, and these together with the requests already sent.
\<close>

definition outstanding :: "'c pool \<Rightarrow> request multiset" where
  "outstanding q = requests_in (running q) + requests_in (queue q)"

definition accounted :: "'c pool \<Rightarrow> request multiset" where
  "accounted q = mset (sent (outside q)) + outstanding q"

text \<open>No outstanding request can raise, and no call has raised so far.\<close>

definition untroubled :: "'c client \<Rightarrow> 'c pool \<Rightarrow> bool" where
  "untroubled cl q \<longleftrightarrow>
     (\<forall>rq c e. rq \<in># outstanding q \<longrightarrow> fst (cl rq c) \<noteq> Inl e) \<and>
     raised q = None \<and> (\<forall>e. Inl e \<notin> set (finished q))"




text \<open>What \<open>update_alarms\<close> computes when the listing collaborator returns.\<close>

definition run_states ::
  "'c client \<Rightarrow> environ \<Rightarrow> (string \<times> pyval) list \<Rightarrow> nat list \<Rightarrow> pyval \<Rightarrow> pyval \<Rightarrow> pyval \<Rightarrow>
   'c world \<Rightarrow> 'c pool list" where
  "run_states cl env d sched et ep tt w =
     pool_trace cl 3 sched
       (executor (submitted_calls env d et ep tt)
          (w\<lparr>logged := logged w @ [FString ''Creating alarms for '' (PyDict d)]\<rparr>))"

definition final_pool ::
  "'c client \<Rightarrow> environ \<Rightarrow> (string \<times> pyval) list \<Rightarrow> nat list \<Rightarrow> pyval \<Rightarrow> pyval \<Rightarrow> pyval \<Rightarrow>
   'c world \<Rightarrow> 'c pool" where
  "final_pool cl env d sched et ep tt w =
     pool_run cl 3 sched
       (executor (submitted_calls env d et ep tt)
          (w\<lparr>logged := logged w @ [FString ''Creating alarms for '' (PyDict d)]\<rparr>))"

text \<open>
  What a call is sure to send and what it may send. The requests of a call are sent in
  order, and the call ends at the first that raises: the first request is sent in every
  case, and a later one is sure to be sent when every request before it can only
  return, and cannot be sent when some request before it can only raise.
\<close>

definition always_returns :: "'c client \<Rightarrow> request \<Rightarrow> bool" where
  "always_returns cl rq \<longleftrightarrow> (\<forall>c e. fst (cl rq c) \<noteq> Inl e)"

definition always_raises :: "'c client \<Rightarrow> request \<Rightarrow> bool" where
  "always_raises cl rq \<longleftrightarrow> (\<forall>c v. fst (cl rq c) \<noteq> Inr v)"

fun sure_to_send :: "'c client \<Rightarrow> request list \<Rightarrow> request multiset" where
  "sure_to_send cl [] = {#}"
| "sure_to_send cl (rq # rqs) =
     {#rq#} + (if always_returns cl rq then sure_to_send cl rqs else {#})"

fun may_send :: "'c client \<Rightarrow> request list \<Rightarrow> request multiset" where
  "may_send cl [] = {#}"
| "may_send cl (rq # rqs) = {#rq#} + (if always_raises cl rq then {#} else may_send cl rqs)"

definition surely_sent :: "'c client \<Rightarrow> 'c pool \<Rightarrow> request multiset" where
  "surely_sent cl q =
     mset (sent (outside q))
     + (\<Sum>t\<leftarrow>running q @ queue q. sure_to_send cl (requests_of t))"

definition possibly_sent :: "'c client \<Rightarrow> 'c pool \<Rightarrow> request multiset" where
  "possibly_sent cl q =
     mset (sent (outside q)) + (\<Sum>t\<leftarrow>running q @ queue q. may_send cl (requests_of t))"




definition accepting :: "unit client" where
  "accepting rq c = (Inr (PyDict []), c)"

section \<open>The alarm definitions\<close>

text \<open>
  Claim C2. For every function name, threshold and period, \<open>create_lambda_errors_alarm\<close>
  builds exactly one alarm definition; its alarm name is \<open>LambdaError_\<close> followed by the
  function name, its metric is \<open>Errors\<close> in the namespace \<open>AWS/Lambda\<close> with statistic
  \<open>Sum\<close>, its comparison operator is \<open>GreaterThanThreshold\<close>, its threshold and period
  are the ones given, and its only dimension binds \<open>FunctionName\<close> to the function name.
\<close>

theorem create_lambda_errors_alarm_payload:
  "\<exists>kw. alarm_definitions (create_lambda_errors_alarm env func_name threshold period) = [kw]
      \<and> map_of kw ''AlarmName'' = Some (PyStr (''LambdaError_'' @ func_name))
      \<and> map_of kw ''MetricName'' = Some (PyStr ''Errors'')
      \<and> map_of kw ''Namespace'' = Some (PyStr ''AWS/Lambda'')
      \<and> map_of kw ''Statistic'' = Some (PyStr ''Sum'')
      \<and> map_of kw ''ComparisonOperator'' = Some (PyStr ''GreaterThanThreshold'')
      \<and> map_of kw ''Threshold'' = Some threshold
      \<and> map_of kw ''Period'' = Some period
      \<and> map_of kw ''Dimensions'' = Some (function_name_dimension func_name)"
  by (simp add: create_lambda_errors_alarm_def function_name_dimension_def Let_def)

text \<open>
  Claim C3. For every function name, threshold and period, the throttle alarm definition
  has three metric entries: the expression entry, whose expression is exactly
  \<open>(throttles / invocations) * 100\<close>, and the entries \<open>throttles\<close> and \<open>invocations\<close>,
  which are the \<open>Sum\<close> over the given period of the \<open>AWS/Lambda\<close> metrics \<open>Throttles\<close>
  and \<open>Invocations\<close> of that function.
\<close>

theorem create_lambda_throttles_alarm_expression:
  "\<exists>kw expr thr inv.
      alarm_definitions (create_lambda_throttles_alarm env func_name threshold period) = [kw]
      \<and> map_of kw ''Metrics'' = Some (PyList [expr, thr, inv])
      \<and> dict_get expr ''Expression'' = Some (PyStr ''(throttles / invocations) * 100'')
      \<and> dict_get thr ''Id'' = Some (PyStr ''throttles'')
      \<and> at_path thr [''MetricStat'', ''Metric'', ''Namespace''] = Some (PyStr ''AWS/Lambda'')
      \<and> at_path thr [''MetricStat'', ''Metric'', ''MetricName''] = Some (PyStr ''Throttles'')
      \<and> at_path thr [''MetricStat'', ''Metric'', ''Dimensions'']
            = Some (function_name_dimension func_name)
      \<and> at_path thr [''MetricStat'', ''Period''] = Some period
      \<and> at_path thr [''MetricStat'', ''Stat''] = Some (PyStr ''Sum'')
      \<and> dict_get inv ''Id'' = Some (PyStr ''invocations'')
      \<and> at_path inv [''MetricStat'', ''Metric'', ''Namespace''] = Some (PyStr ''AWS/Lambda'')
      \<and> at_path inv [''MetricStat'', ''Metric'', ''MetricName''] = Some (PyStr ''Invocations'')
      \<and> at_path inv [''MetricStat'', ''Metric'', ''Dimensions'']
            = Some (function_name_dimension func_name)
      \<and> at_path inv [''MetricStat'', ''Period''] = Some period
      \<and> at_path inv [''MetricStat'', ''Stat''] = Some (PyStr ''Sum'')"
  by (simp add: create_lambda_throttles_alarm_def function_name_dimension_def Let_def)

text \<open>
  Claim C9. For every function name, the error alarm definition and the throttle alarm
  definition both have as their alarm actions the one-element list holding the value of
  the environment variable \<open>SNS_ALARMS_TOPIC\<close>, and neither definition names an action
  for the other alarm states.
\<close>

theorem alarm_actions_are_the_topic:
  "\<exists>ke kt.
      alarm_definitions (create_lambda_alarms env func_name errors_threshold errors_period
                           throttles_threshold) = [ke, kt]
      \<and> map_of ke ''AlarmActions'' = Some (PyList [os_getenv env ''SNS_ALARMS_TOPIC''])
      \<and> map_of kt ''AlarmActions'' = Some (PyList [os_getenv env ''SNS_ALARMS_TOPIC''])
      \<and> map_of ke ''OKActions'' = None \<and> map_of ke ''InsufficientDataActions'' = None
      \<and> map_of kt ''OKActions'' = None \<and> map_of kt ''InsufficientDataActions'' = None"
  by (simp add: create_lambda_alarms_def create_lambda_errors_alarm_def
        create_lambda_throttles_alarm_def SNS_ALARMS_TOPIC_def Let_def)

section \<open>Lookup and deletion\<close>

lemma next_named_absent:
  "list_all is_alarm_description xs \<Longrightarrow> \<forall>a\<in>set xs. \<not> has_alarm_name n a \<Longrightarrow>
   next_named n xs = Inr PyNone"
proof (induction xs)
  case Nil
  then show ?case by simp
next
  case (Cons x xs)
  then obtain d where x: "x = PyDict d" by (cases x) auto
  with Cons show ?case by (auto simp: has_alarm_name_def split: option.splits)
qed

lemma next_named_first:
  "list_all is_alarm_description xs \<Longrightarrow> i < length xs \<Longrightarrow> has_alarm_name n (xs ! i) \<Longrightarrow>
   \<forall>j<i. \<not> has_alarm_name n (xs ! j) \<Longrightarrow> next_named n xs = Inr (xs ! i)"
proof (induction xs arbitrary: i)
  case Nil
  then show ?case by simp
next
  case (Cons x xs)
  then obtain d where x: "x = PyDict d" by (cases x) auto
  show ?case
  proof (cases i)
    case 0
    with Cons.prems x show ?thesis by (auto simp: has_alarm_name_def)
  next
    case (Suc k)
    with Cons.prems have nx: "\<not> has_alarm_name n x" by auto
    from Suc Cons.prems have "\<forall>j<k. \<not> has_alarm_name n (xs ! j)" by auto
    with Cons.IH [of k] Suc Cons.prems have "next_named n xs = Inr (xs ! k)" by auto
    with nx x Suc Cons.prems show ?thesis
      by (auto simp: has_alarm_name_def split: option.splits)
  qed
qed

lemma get_existing_alarm_response:
  assumes "cl (DescribeAlarms [(''AlarmNames'', PyList [PyStr (''LambdaError_'' @ func_name)])])
             (cloud w) = (Inr (PyDict resp), c')"
    and "map_of resp ''MetricAlarms'' = Some (PyList alarms)"
  shows "fst (get_existing_alarm cl func_name w) = next_named (''LambdaError_'' @ func_name) alarms"
  using assms by (simp add: get_existing_alarm_def perform_def Let_def)

text \<open>
  Claim C10. For every function name and every response of the describe operation (a
  \<open>dict\<close> whose \<open>MetricAlarms\<close> is a list of alarm descriptions),
  \<open>get_existing_alarm\<close> returns the first listed alarm whose \<open>AlarmName\<close> is exactly
  \<open>LambdaError_\<close> followed by the function name, and returns \<open>None\<close> when no listed
  alarm has that name, whatever other alarms the response lists.
\<close>

theorem get_existing_alarm_first_match:
  assumes "cl (DescribeAlarms [(''AlarmNames'', PyList [PyStr (''LambdaError_'' @ func_name)])])
             (cloud w) = (Inr (PyDict resp), c')"
    and "map_of resp ''MetricAlarms'' = Some (PyList alarms)"
    and "list_all is_alarm_description alarms"
  shows "(\<forall>i<length alarms.
            has_alarm_name (''LambdaError_'' @ func_name) (alarms ! i) \<and>
            (\<forall>j<i. \<not> has_alarm_name (''LambdaError_'' @ func_name) (alarms ! j)) \<longrightarrow>
            fst (get_existing_alarm cl func_name w) = Inr (alarms ! i))
       \<and> ((\<forall>a\<in>set alarms. \<not> has_alarm_name (''LambdaError_'' @ func_name) a) \<longrightarrow>
            fst (get_existing_alarm cl func_name w) = Inr PyNone)"
proof -
  have "fst (get_existing_alarm cl func_name w) = next_named (''LambdaError_'' @ func_name) alarms"
    using assms(1) assms(2) by (simp add: get_existing_alarm_def perform_def Let_def)
  with assms(3) show ?thesis
    by (auto simp: next_named_first next_named_absent)
qed

theorem get_existing_alarm_first_match_witness:
  "fst (get_existing_alarm listing_three ''f'' \<lparr>cloud = (), sent = [], logged = []\<rparr>)
     = Inr (PyDict [(''AlarmName'', PyStr ''LambdaError_f''), (''StateValue'', PyStr ''ALARM'')])
   \<and> fst (get_existing_alarm listing_three ''h'' \<lparr>cloud = (), sent = [], logged = []\<rparr>) = Inr PyNone"
proof -
  let ?w = "\<lparr>cloud = (), sent = [], logged = []\<rparr> :: unit world"
  let ?alarms = "[PyDict [(''AlarmName'', PyStr ''LambdaError_g''), (''StateValue'', PyStr ''OK'')],
         PyDict [(''AlarmName'', PyStr ''LambdaError_f''), (''StateValue'', PyStr ''ALARM'')],
         PyDict [(''AlarmName'', PyStr ''LambdaError_f''), (''StateValue'', PyStr ''OK'')]]"
  have f: "fst (get_existing_alarm listing_three ''f'' ?w) = Inr (?alarms ! 1)"
    using get_existing_alarm_first_match
      [of listing_three "''f''" ?w "[(''MetricAlarms'', PyList ?alarms)]" "()" ?alarms,
       THEN conjunct1, rule_format, of 1]
    by (simp add: listing_three_def has_alarm_name_def)
  have h: "fst (get_existing_alarm listing_three ''h'' ?w) = Inr PyNone"
    using get_existing_alarm_first_match
      [of listing_three "''h''" ?w "[(''MetricAlarms'', PyList ?alarms)]" "()" ?alarms,
       THEN conjunct2]
    by (simp add: listing_three_def has_alarm_name_def)
  from f h show ?thesis by simp
qed

text \<open>
  What the lookup returns is \<open>None\<close> or a non-empty \<open>dict\<close>, so the test
  \<open>if existing_alarm\<close> of \<open>delete_alarms\<close> fails exactly when it is \<open>None\<close>.
\<close>

lemma next_named_truthy:
  "next_named n xs = Inr v \<Longrightarrow> v = PyNone \<or> truthy v"
proof (induction xs)
  case Nil
  then show ?case by simp
next
  case (Cons x xs)
  show ?case
  proof (cases "subscript x ''AlarmName''")
    case (Inl e)
    with Cons.prems show ?thesis by simp
  next
    case (Inr m)
    then obtain d where x: "x = PyDict d" by (cases x) simp_all
    with Inr have "d \<noteq> []" by (cases d) simp_all
    with x have tx: "truthy x" by simp
    show ?thesis
    proof (cases "m = PyStr n")
      case True
      with Inr Cons.prems tx show ?thesis by simp
    next
      case False
      with Inr Cons.prems have "next_named n xs = Inr v" by simp
      then show ?thesis by (rule Cons.IH)
    qed
  qed
qed

lemma get_existing_alarm_world:
  "snd (get_existing_alarm cl func_name w) =
     w\<lparr>cloud := snd (cl (DescribeAlarms
                          [(''AlarmNames'', PyList [PyStr (''LambdaError_'' @ func_name)])])
                       (cloud w)),
        sent := sent w @ [DescribeAlarms
                            [(''AlarmNames'', PyList [PyStr (''LambdaError_'' @ func_name)])]]\<rparr>"
  by (simp add: get_existing_alarm_def perform_def Let_def split: prod.splits sum.splits)

text \<open>
  Claim C4. For every function name for which the lookup returns \<open>None\<close>,
  \<open>delete_alarms\<close> returns \<open>None\<close> without raising; the only request it has sent is
  the describe request of the lookup (no delete request), so the state of the service is
  the one that request left, and the only record it has logged is the not-found message.
\<close>

theorem delete_alarms_not_found:
  assumes "fst (get_existing_alarm cl func_name w) = Inr PyNone"
  shows "delete_alarms cl func_name w =
           (Inr PyNone,
            \<lparr>cloud = snd (cl (DescribeAlarms
                               [(''AlarmNames'', PyList [PyStr (''LambdaError_'' @ func_name)])])
                            (cloud w)),
             sent = sent w @ [DescribeAlarms
                               [(''AlarmNames'', PyList [PyStr (''LambdaError_'' @ func_name)])]],
             logged = logged w @ [Message (''No alarms found for function '' @ func_name)]\<rparr>)"
proof -
  obtain r w1 where g: "get_existing_alarm cl func_name w = (r, w1)"
    by (cases "get_existing_alarm cl func_name w")
  with assms have r: "r = Inr PyNone" by simp
  from g get_existing_alarm_world [of cl func_name w]
  have w1: "w1 = w\<lparr>cloud := snd (cl (DescribeAlarms
                          [(''AlarmNames'', PyList [PyStr (''LambdaError_'' @ func_name)])])
                       (cloud w)),
        sent := sent w @ [DescribeAlarms
                            [(''AlarmNames'', PyList [PyStr (''LambdaError_'' @ func_name)])]]\<rparr>"
    by simp
  have "delete_alarms cl func_name w =
          perform cl (LogInfo (Message (''No alarms found for function '' @ func_name))) w1"
    unfolding delete_alarms_def g r by simp
  then show ?thesis unfolding w1 by (simp add: perform_def)
qed

theorem delete_alarms_not_found_witness:
  "delete_alarms cloudwatch_service ''f''
     \<lparr>cloud = [(''LambdaThrottles_f'', [(''AlarmName'', PyStr ''LambdaThrottles_f'')])],
      sent = [], logged = []\<rparr>
   = (Inr PyNone,
      \<lparr>cloud = [(''LambdaThrottles_f'', [(''AlarmName'', PyStr ''LambdaThrottles_f'')])],
       sent = [DescribeAlarms [(''AlarmNames'', PyList [PyStr ''LambdaError_f''])]],
       logged = [Message ''No alarms found for function f'']\<rparr>)"
  using delete_alarms_not_found [of cloudwatch_service "''f''"
     "\<lparr>cloud = [(''LambdaThrottles_f'', [(''AlarmName'', PyStr ''LambdaThrottles_f'')])],
      sent = [], logged = []\<rparr>"]
  by (simp add: get_existing_alarm_def perform_def cloudwatch_service_def alarms_named_def Let_def)

text \<open>
  The round trip on the store model of the service, for every function name and every
  initial store: creating the alarms and then deleting by the conventional name returns
  normally, removes the error alarm and leaves the throttle alarm behind.
\<close>

lemma create_lambda_alarms_script:
  "\<exists>m1 ke m2 kt.
     create_lambda_alarms env f et ep tt
       = [LogInfo m1, Request (PutMetricAlarm ke), LogInfo m2, Request (PutMetricAlarm kt)]
     \<and> map_of ke ''AlarmName'' = Some (PyStr (''LambdaError_'' @ f))
     \<and> map_of kt ''AlarmName'' = Some (PyStr (''LambdaThrottles_'' @ f))"
  by (simp add: create_lambda_alarms_def create_lambda_errors_alarm_def
        create_lambda_throttles_alarm_def Let_def)

lemma names_differ: "''LambdaError_'' @ f \<noteq> ''LambdaThrottles_'' @ g"
  by simp

lemma create_then_delete_keeps_throttles_alarm:
  fixes w :: "alarm_store world"
  shows "\<exists>kt. fst (delete_alarms cloudwatch_service f
                  (snd (run_procedure cloudwatch_service
                          (create_lambda_alarms env f et ep tt) w))) = Inr PyNone
       \<and> (''LambdaThrottles_'' @ f, kt)
            \<in> set (cloud (snd (delete_alarms cloudwatch_service f
                  (snd (run_procedure cloudwatch_service
                          (create_lambda_alarms env f et ep tt) w)))))
       \<and> ''LambdaError_'' @ f
            \<notin> fst ` set (cloud (snd (delete_alarms cloudwatch_service f
                  (snd (run_procedure cloudwatch_service
                          (create_lambda_alarms env f et ep tt) w)))))"
proof -
  let ?E = "''LambdaError_'' @ f" and ?T = "''LambdaThrottles_'' @ f"
  obtain m1 ke m2 kt where
    s: "create_lambda_alarms env f et ep tt
          = [LogInfo m1, Request (PutMetricAlarm ke), LogInfo m2, Request (PutMetricAlarm kt)]"
    and ke: "map_of ke ''AlarmName'' = Some (PyStr ?E)"
    and kt: "map_of kt ''AlarmName'' = Some (PyStr ?T)"
    using create_lambda_alarms_script [of env f et ep tt] by blast
  define st1 where "st1 = [(m, a) \<leftarrow> [(m, a) \<leftarrow> cloud w. m \<noteq> ?E] @ [(?E, ke)]. m \<noteq> ?T] @ [(?T, kt)]"
  define w1 where "w1 = snd (run_procedure cloudwatch_service (create_lambda_alarms env f et ep tt) w)"
  have c1: "cloud w1 = st1"
    unfolding w1_def s st1_def
    by (simp add: run_procedure_def perform_def cloudwatch_service_def ke kt)
  have ne: "?E \<noteq> ?T" by simp
  have named: "alarms_named st1 (PyStr ?E) = [PyDict ke]"
    unfolding st1_def alarms_named_def using ne
    by (simp add: filter_empty_conv)
  have g: "get_existing_alarm cloudwatch_service f w1
             = (Inr (PyDict ke),
                w1\<lparr>sent := sent w1 @ [DescribeAlarms [(''AlarmNames'', PyList [PyStr ?E])]]\<rparr>)"
    using ke named by (simp add: get_existing_alarm_def perform_def cloudwatch_service_def c1 Let_def)
  from ke have nonempty: "ke \<noteq> []" by auto
  have d: "cloud (snd (delete_alarms cloudwatch_service f w1)) = [(m, a) \<leftarrow> st1. m \<noteq> ?E]"
    and r: "fst (delete_alarms cloudwatch_service f w1) = Inr PyNone"
    using ke nonempty
    by (simp_all add: delete_alarms_def g perform_def cloudwatch_service_def c1)
  have "(?T, kt) \<in> set [(m, a) \<leftarrow> st1. m \<noteq> ?E]"
    unfolding st1_def using ne by simp
  moreover have "?E \<notin> fst ` set [(m, a) \<leftarrow> st1. m \<noteq> ?E]"
    by auto
  ultimately show ?thesis
    using d r unfolding w1_def by metis
qed

text \<open>
  Claim C1 (the code does not do what is claimed). Starting from a service without
  alarms, creating the alarms of the function \<open>f\<close> and then deleting by the
  conventional name returns normally and leaves the throttle alarm of \<open>f\<close> in the
  service: the lookup and the deletion know the name \<open>LambdaError_f\<close> only.
\<close>

theorem create_then_delete_leaves_throttles_alarm:
  "(let w1 = snd (run_procedure cloudwatch_service
                    (create_lambda_alarms [''SNS_ALARMS_TOPIC'' \<mapsto> ''arn:aws:sns:eu-west-1:1:alarms'']
                       ''f'' (PyFloat 1) (PyInt 60) (PyFloat 1))
                    \<lparr>cloud = [], sent = [], logged = []\<rparr>);
        (r, w2) = delete_alarms cloudwatch_service ''f'' w1
    in (r, map fst (cloud w2)))
   = (Inr PyNone, [''LambdaThrottles_f''])"
  by code_simp

section \<open>The handler\<close>

text \<open>
  Claim C5 (the code does not do what is claimed). For every event, the handler does
  nothing but call \<open>update_dashboard\<close>: the world it leaves is the one
  \<open>update_dashboard\<close> left, and it returns an empty \<open>dict\<close> unless that call raised.
  It creates no alarm and deletes none.
\<close>

theorem watch_existing_only_updates_dashboard:
  "snd (watch_existing update_dashboard event ctx w) = snd (update_dashboard w)
   \<and> fst (watch_existing update_dashboard event ctx w)
       = (case fst (update_dashboard w) of Inl e \<Rightarrow> Inl e | Inr v \<Rightarrow> Inr (PyDict []))"
  by (simp add: watch_existing_def split: prod.splits sum.splits)

section \<open>The fan-out driver\<close>

lemma sum_list_remove_nth:
  assumes "i < length xs"
  shows "sum_list (map f (remove_nth i xs)) + f (xs ! i) = (sum_list (map f xs) :: nat)"
proof -
  have "map f xs = map f (take i xs @ xs ! i # drop (Suc i) xs)"
    using id_take_nth_drop [OF assms] by simp
  then show ?thesis by (simp add: remove_nth_def)
qed

lemma sum_list_update_less:
  assumes "i < length xs" and "f y < f (xs ! i)"
  shows "sum_list (map f (xs[i := y])) < (sum_list (map f xs) :: nat)"
proof -
  have u: "xs[i := y] = take i xs @ y # drop (Suc i) xs"
    using assms(1) by (simp add: upd_conv_take_nth_drop)
  have "map f xs = map f (take i xs @ xs ! i # drop (Suc i) xs)"
    using id_take_nth_drop [OF assms(1)] by simp
  then have "sum_list (map f xs)
      = sum_list (map f (take i xs)) + f (xs ! i) + sum_list (map f (drop (Suc i) xs))"
    by simp
  with assms(2) show ?thesis unfolding u by simp
qed

lemma length_remove_nth: "i < length xs \<Longrightarrow> Suc (length (remove_nth i xs)) = length xs"
  by (simp add: remove_nth_def)

lemma set_remove_nth: "set (remove_nth i xs) \<subseteq> set xs"
  by (auto simp: remove_nth_def dest: in_set_takeD in_set_dropD)

lemma perform_cases:
  assumes "perform cl a w = (r, w')"
  obtains (log) m where "a = LogInfo m" "r = Inr PyNone" "w' = w\<lparr>logged := logged w @ [m]\<rparr>"
  | (request) rq c' where "a = Request rq" "cl rq (cloud w) = (r, c')"
      "w' = w\<lparr>cloud := c', sent := sent w @ [rq]\<rparr>"
proof (cases a)
  case (LogInfo m)
  with assms log show ?thesis by (simp add: perform_def)
next
  case (Request rq)
  obtain r0 c' where c: "cl rq (cloud w) = (r0, c')" by (cases "cl rq (cloud w)")
  with assms Request request show ?thesis by (simp add: perform_def)
qed

lemma move_cases:
  assumes "m \<in> set (moves mw q)"
  obtains (start) t ts where "queue q = t # ts" "length (running q) < mw"
      "apply_move cl m q = q\<lparr>queue := ts, running := running q @ [t]\<rparr>"
  | (returned) i where "i < length (running q)" "running q ! i = []"
      "apply_move cl m q =
         q\<lparr>running := remove_nth i (running q), finished := finished q @ [Inr PyNone]\<rparr>"
  | (failed) i a as e w' where "i < length (running q)" "running q ! i = a # as"
      "perform cl a (outside q) = (Inl e, w')"
      "apply_move cl m q =
         q\<lparr>running := remove_nth i (running q), finished := finished q @ [Inl e],
           outside := w'\<rparr>"
  | (stepped) i a as v w' where "i < length (running q)" "running q ! i = a # as"
      "perform cl a (outside q) = (Inr v, w')"
      "apply_move cl m q = q\<lparr>running := (running q)[i := as], outside := w'\<rparr>"
  | (logged) j v where "j < length (finished q)" "raised q = None" "finished q ! j = Inr v"
      "apply_move cl m q =
         q\<lparr>finished := remove_nth j (finished q),
           outside := (outside q)\<lparr>logged := logged (outside q) @ [Value v]\<rparr>\<rparr>"
  | (reraised) j e where "j < length (finished q)" "raised q = None" "finished q ! j = Inl e"
      "apply_move cl m q = q\<lparr>finished := remove_nth j (finished q), raised := Some e\<rparr>"
proof (cases m)
  case Start
  with assms have q: "queue q \<noteq> []" and l: "length (running q) < mw"
    by (auto simp: moves_def split: if_splits)
  then obtain t ts where "queue q = t # ts" by (cases "queue q") auto
  with Start l start show ?thesis by (simp add: start_def)
next
  case (Work i)
  with assms have i: "i < length (running q)"
    by (auto simp: moves_def split: if_splits)
  show ?thesis
  proof (cases "running q ! i")
    case Nil
    with Work i returned show ?thesis by (simp add: work_def)
  next
    case (Cons a as)
    obtain r w' where p: "perform cl a (outside q) = (r, w')"
      by (cases "perform cl a (outside q)")
    show ?thesis
    proof (cases r)
      case (Inl e)
      with Work i Cons p failed show ?thesis by (simp add: work_def)
    next
      case (Inr v)
      with Work i Cons p stepped show ?thesis by (simp add: work_def)
    qed
  qed
next
  case (Collect j)
  with assms have j: "j < length (finished q)" and r: "raised q = None"
    by (auto simp: moves_def split: if_splits)
  show ?thesis
  proof (cases "finished q ! j")
    case (Inl e)
    with Collect j r reraised show ?thesis by (simp add: collect_def)
  next
    case (Inr v)
    with Collect j r logged show ?thesis by (simp add: collect_def perform_def)
  qed
qed

lemma apply_move_decreases:
  assumes "m \<in> set (moves mw p)"
  shows "pool_size (apply_move cl m p) < pool_size p"
  using assms
proof (cases rule: move_cases [where cl = cl])
  case (start t ts)
  then show ?thesis by (simp add: pool_size_def)
next
  case (returned i)
  with sum_list_remove_nth [OF returned(1), of "\<lambda>t. length t + 2"] show ?thesis
    by (simp add: pool_size_def)
next
  case (failed i a as e w')
  with sum_list_remove_nth [OF failed(1), of "\<lambda>t. length t + 2"] show ?thesis
    by (simp add: pool_size_def)
next
  case (stepped i a as v w')
  have "sum_list (map (\<lambda>t. length t + 2) ((running p)[i := as]))
          < sum_list (map (\<lambda>t. length t + 2) (running p))"
    using stepped(1,2) by (intro sum_list_update_less) simp_all
  with stepped show ?thesis by (simp add: pool_size_def)
next
  case (logged j v)
  with length_remove_nth [OF logged(1)] show ?thesis by (simp add: pool_size_def)
next
  case (reraised j e)
  with length_remove_nth [OF reraised(1)] show ?thesis by (simp add: pool_size_def)
qed

lemma pick_in: "ms \<noteq> [] \<Longrightarrow> pick sched ms \<in> set ms"
  by (cases sched) (simp_all add: pick_def)

termination pool_trace
proof (relation "measure (\<lambda>(cl, mw, sched, p). pool_size p)")
  show "wf (measure (\<lambda>(cl, mw, sched, p). pool_size p))" by simp
next
  fix cl :: "'c client" and max_workers :: nat and sched :: "nat list" and p :: "'c pool"
  assume "moves max_workers p \<noteq> []"
  then have "pick sched (moves max_workers p) \<in> set (moves max_workers p)"
    by (rule pick_in)
  then have "pool_size (apply_move cl (pick sched (moves max_workers p)) p) < pool_size p"
    by (rule apply_move_decreases)
  then show "((cl, max_workers, tl sched, apply_move cl (pick sched (moves max_workers p)) p),
              cl, max_workers, sched, p)
             \<in> measure (\<lambda>(cl, mw, sched, p). pool_size p)"
    by simp
qed

declare pool_trace.simps [simp del]

lemma pool_trace_nonempty: "pool_trace cl mw sched p \<noteq> []"
  by (subst pool_trace.simps) simp

lemma pool_run_unfold:
  "pool_run cl mw sched p =
     (if moves mw p = [] then p
      else pool_run cl mw (tl sched) (apply_move cl (pick sched (moves mw p)) p))"
  unfolding pool_run_def
  by (subst pool_trace.simps) (simp add: pool_trace_nonempty)

lemma pool_run_invariant:
  assumes "P p"
    and "\<And>q m. P q \<Longrightarrow> m \<in> set (moves mw q) \<Longrightarrow> P (apply_move cl m q)"
  shows "P (pool_run cl mw sched p)"
  using assms
proof (induction cl mw sched p rule: pool_trace.induct)
  case (1 cl mw sched p)
  show ?case
  proof (cases "moves mw p = []")
    case True
    with "1.prems"(1) show ?thesis by (subst pool_run_unfold) simp
  next
    case False
    then have "pick sched (moves mw p) \<in> set (moves mw p)" by (rule pick_in)
    with "1.prems"(1) have "P (apply_move cl (pick sched (moves mw p)) p)"
      by (rule "1.prems"(2))
    with False "1.IH" "1.prems"(2)
    have "P (pool_run cl mw (tl sched) (apply_move cl (pick sched (moves mw p)) p))"
      by blast
    with False show ?thesis by (subst pool_run_unfold) simp
  qed
qed

lemma pool_run_done: "moves mw (pool_run cl mw sched p) = []"
proof (induction cl mw sched p rule: pool_trace.induct)
  case (1 cl mw sched p)
  show ?case
  proof (cases "moves mw p = []")
    case True
    then show ?thesis by (subst pool_run_unfold) simp
  next
    case False
    with "1.IH" show ?thesis by (subst pool_run_unfold) simp
  qed
qed

lemma pool_run_reachable: "reachable cl mw p (pool_run cl mw sched p)"
  by (rule pool_run_invariant [where P = "reachable cl mw p"])
     (auto intro: reachable.intros)


lemma requests_in_append: "requests_in (ts @ us) = requests_in ts + requests_in us"
  by (simp add: requests_in_def)

lemma requests_in_Cons: "requests_in (t # ts) = mset (requests_of t) + requests_in ts"
  by (simp add: requests_in_def)

lemma requests_in_Nil: "requests_in [] = {#}"
  by (simp add: requests_in_def)

lemma requests_in_remove_nth:
  assumes "i < length ts"
  shows "requests_in (remove_nth i ts) + mset (requests_of (ts ! i)) = requests_in ts"
proof -
  have "requests_in ts = requests_in (take i ts @ ts ! i # drop (Suc i) ts)"
    using id_take_nth_drop [OF assms] by simp
  then show ?thesis
    by (simp add: remove_nth_def requests_in_append requests_in_Cons)
qed

lemma requests_in_update:
  assumes "i < length ts"
  shows "requests_in (ts[i := u]) + mset (requests_of (ts ! i))
           = requests_in ts + mset (requests_of u)"
proof -
  have u: "ts[i := u] = take i ts @ u # drop (Suc i) ts"
    using assms by (simp add: upd_conv_take_nth_drop)
  have "requests_in ts = requests_in (take i ts @ ts ! i # drop (Suc i) ts)"
    using id_take_nth_drop [OF assms] by simp
  then show ?thesis
    unfolding u by (simp add: requests_in_append requests_in_Cons)
qed

lemma move_outstanding:
  assumes "m \<in> set (moves mw q)"
  shows "outstanding (apply_move cl m q) \<subseteq># outstanding q"
  using assms
proof (cases rule: move_cases [where cl = cl])
  case (start t ts)
  then show ?thesis by (simp add: outstanding_def requests_in_append requests_in_Cons requests_in_Nil)
next
  case (returned i)
  with requests_in_remove_nth [OF returned(1)] show ?thesis
    by (simp add: outstanding_def)
next
  case (failed i a as e w')
  have "requests_in (remove_nth i (running q)) \<subseteq># requests_in (running q)"
    using requests_in_remove_nth [OF failed(1)] by (metis mset_subset_eq_add_left)
  with failed show ?thesis by (simp add: outstanding_def)
next
  case (stepped i a as v w')
  have "mset (requests_of as) \<subseteq># mset (requests_of (running q ! i))"
    unfolding stepped(2) by (cases a) simp_all
  then obtain d where d: "mset (requests_of (running q ! i)) = mset (requests_of as) + d"
    by (auto simp: mset_subset_eq_exists_conv)
  from requests_in_update [OF stepped(1), of as] d
  have "requests_in (running q) = requests_in ((running q)[i := as]) + d"
    by (simp add: ac_simps)
  with stepped show ?thesis by (simp add: outstanding_def)
next
  case (logged j v)
  then show ?thesis by (simp add: outstanding_def)
next
  case (reraised j e)
  then show ?thesis by (simp add: outstanding_def)
qed


lemma in_outstanding_running:
  assumes "i < length (running q)" and "rq \<in> set (requests_of (running q ! i))"
  shows "rq \<in># outstanding q"
proof -
  from requests_in_remove_nth [OF assms(1)] assms(2)
  have "rq \<in># requests_in (running q)"
    by (metis in_multiset_in_set union_iff)
  then show ?thesis by (simp add: outstanding_def)
qed

lemma move_untroubled:
  assumes "m \<in> set (moves mw q)" and "untroubled cl q"
  shows "untroubled cl (apply_move cl m q) \<and> accounted (apply_move cl m q) = accounted q"
proof -
  from assms(2) move_outstanding [OF assms(1), of cl]
  have out: "\<forall>rq c e. rq \<in># outstanding (apply_move cl m q) \<longrightarrow> fst (cl rq c) \<noteq> Inl e"
    unfolding untroubled_def by (meson mset_subset_eqD)
  from assms(2) have r: "raised q = None" and f: "\<forall>e. Inl e \<notin> set (finished q)"
    by (simp_all add: untroubled_def)
  from assms(1) show ?thesis
  proof (cases rule: move_cases [where cl = cl])
    case (start t ts)
    with out r f show ?thesis
      by (simp add: untroubled_def accounted_def outstanding_def requests_in_append
            requests_in_Cons requests_in_Nil)
  next
    case (returned i)
    with out r f requests_in_remove_nth [OF returned(1)] show ?thesis
      by (simp add: untroubled_def accounted_def outstanding_def)
  next
    case (failed i a as e w')
    from failed(3) have False
    proof (cases rule: perform_cases)
      case (log m)
      then show ?thesis by simp
    next
      case (request rq c')
      with failed(1,2) have "rq \<in># outstanding q"
        by (intro in_outstanding_running [of i]) simp_all
      with assms(2) request(2) show ?thesis
        unfolding untroubled_def by (metis fst_conv)
    qed
    then show ?thesis ..
  next
    case (stepped i a as v w')
    from requests_in_update [OF stepped(1), of as] stepped(2)
    have u: "requests_in ((running q)[i := as]) + mset (requests_of (a # as))
               = requests_in (running q) + mset (requests_of as)"
      by simp
    from stepped(3) have "accounted (apply_move cl m q) = accounted q"
    proof (cases rule: perform_cases)
      case (log m)
      with stepped(4) u show ?thesis
        by (simp add: accounted_def outstanding_def)
    next
      case (request rq c')
      with u have "requests_in ((running q)[i := as]) + {#rq#} = requests_in (running q)"
        by simp
      with stepped(4) request show ?thesis
        by (simp add: accounted_def outstanding_def ac_simps)
    qed
    moreover from stepped(4) out r f have "untroubled cl (apply_move cl m q)"
      by (simp add: untroubled_def)
    ultimately show ?thesis by simp
  next
    case (logged j v)
    from f set_remove_nth [of j "finished q"]
    have "\<forall>e. Inl e \<notin> set (remove_nth j (finished q))" by blast
    with logged out r show ?thesis
      by (simp add: untroubled_def accounted_def outstanding_def)
  next
    case (reraised j e)
    with f have False by (metis nth_mem)
    then show ?thesis ..
  qed
qed





lemma moves_Nil:
  assumes "moves mw q = []" and "0 < mw"
  shows "queue q = [] \<and> running q = [] \<and> (raised q = None \<longrightarrow> finished q = [])"
proof -
  from assms(1) have r: "running q = []" by (simp add: moves_def)
  with assms have "queue q = []" by (auto simp: moves_def split: if_splits)
  moreover from assms(1) have "raised q = None \<longrightarrow> finished q = []"
    by (auto simp: moves_def split: if_splits)
  ultimately show ?thesis using r by simp
qed

lemma create_lambda_alarms_requests:
  "\<exists>ke kt. requests_of (create_lambda_alarms env f et ep tt)
              = [PutMetricAlarm ke, PutMetricAlarm kt]"
  by (simp add: create_lambda_alarms_def create_lambda_errors_alarm_def
        create_lambda_throttles_alarm_def Let_def)


lemma in_requests_in: "rq \<in># requests_in ts \<longleftrightarrow> (\<exists>t\<in>set ts. rq \<in> set (requests_of t))"
  by (induction ts) (auto simp: requests_in_Nil requests_in_Cons)

lemma requests_in_submitted_calls:
  "requests_in (submitted_calls env d et ep tt)
     = (\<Sum>f\<leftarrow>map fst d. mset (requests_of (create_lambda_alarms env f et ep tt)))"
  by (simp add: requests_in_def submitted_calls_def comp_def)

lemma submitted_calls_puts:
  assumes "rq \<in># requests_in (submitted_calls env d et ep tt)"
  shows "\<exists>kw. rq = PutMetricAlarm kw"
proof -
  from assms obtain f where "rq \<in> set (requests_of (create_lambda_alarms env f et ep tt))"
    by (auto simp: in_requests_in submitted_calls_def)
  with create_lambda_alarms_requests [of env f et ep tt] show ?thesis by auto
qed

lemma returned_triple: "returned (r, w, s) = r"
  by (simp add: returned_def)

lemma world_after_triple: "world_after (r, w, s) = w"
  by (simp add: world_after_def)

lemma states_of_triple: "states_of (r, w, s) = s"
  by (simp add: states_of_def)

lemma final_pool_last:
  "final_pool cl env d sched et ep tt w = last (run_states cl env d sched et ep tt w)"
  by (simp add: final_pool_def run_states_def pool_run_def)

lemma update_alarms_final_pool:
  "update_alarms cl env (Inr d) sched a b c w =
     (case raised (final_pool cl env d sched (default_arg (PyFloat 1) a)
                     (default_arg (PyInt 60) b) (default_arg (PyFloat 1) c) w) of
        Some e \<Rightarrow> Inl e | None \<Rightarrow> Inr PyNone,
      outside (final_pool cl env d sched (default_arg (PyFloat 1) a)
                 (default_arg (PyInt 60) b) (default_arg (PyFloat 1) c) w),
      run_states cl env d sched (default_arg (PyFloat 1) a)
        (default_arg (PyInt 60) b) (default_arg (PyFloat 1) c) w)"
  by (simp add: update_alarms_def final_pool_last run_states_def MAX_CONCURRENCY_def
        perform_def Let_def split: option.splits)

lemma final_pool_done:
  "queue (final_pool cl env d sched et ep tt w) = [] \<and>
   running (final_pool cl env d sched et ep tt w) = [] \<and>
   (raised (final_pool cl env d sched et ep tt w) = None \<longrightarrow>
      finished (final_pool cl env d sched et ep tt w) = [])"
  unfolding final_pool_def by (rule moves_Nil [OF pool_run_done]) simp



lemma final_pool_untroubled:
  fixes cl :: "'c client"
  assumes "\<And>kw c e. fst (cl (PutMetricAlarm kw) c) \<noteq> Inl e"
  shows "untroubled cl (final_pool cl env d sched et ep tt w) \<and>
         accounted (final_pool cl env d sched et ep tt w)
           = mset (sent w) + requests_in (submitted_calls env d et ep tt)"
  unfolding final_pool_def
proof (rule pool_run_invariant)
  let ?p = "executor (submitted_calls env d et ep tt)
              (w\<lparr>logged := logged w @ [FString ''Creating alarms for '' (PyDict d)]\<rparr>)"
  have o: "outstanding ?p = requests_in (submitted_calls env d et ep tt)"
    by (simp add: outstanding_def executor_def requests_in_Nil)
  have "fst (cl rq c) \<noteq> Inl e"
    if "rq \<in># requests_in (submitted_calls env d et ep tt)" for rq c e
  proof -
    from that obtain kw where "rq = PutMetricAlarm kw"
      using submitted_calls_puts by blast
    with assms show ?thesis by simp
  qed
  then have "untroubled cl ?p"
    unfolding untroubled_def o by (simp add: executor_def)
  moreover have "accounted ?p = mset (sent w) + requests_in (submitted_calls env d et ep tt)"
    by (simp add: accounted_def o) (simp add: executor_def)
  ultimately show "untroubled cl ?p \<and>
      accounted ?p = mset (sent w) + requests_in (submitted_calls env d et ep tt)" ..
next
  fix q :: "'c pool" and m
  assume "untroubled cl q \<and>
      accounted q = mset (sent w) + requests_in (submitted_calls env d et ep tt)"
    and "m \<in> set (moves 3 q)"
  with move_untroubled [of m 3 q cl]
  show "untroubled cl (apply_move cl m q) \<and>
      accounted (apply_move cl m q)
        = mset (sent w) + requests_in (submitted_calls env d et ep tt)"
    by simp
qed



text \<open>
  The executor agrees with the sequential reading of a function body: a single call,
  run with the schedule that always takes the first enabled move, leaves the world that
  \<open>run_procedure\<close> leaves, followed by the logging of its completion, or ends with
  the main thread raising the error of the call.
\<close>

lemma run_procedure_Nil: "run_procedure cl [] w = (Inr PyNone, w)"
  by (simp add: run_procedure_def)

lemma run_procedure_Cons:
  "run_procedure cl (a # as) w =
     (case perform cl a w of
        (Inl e, w') \<Rightarrow> (Inl e, w')
      | (Inr v, w') \<Rightarrow> run_procedure cl as w')"
  by (cases as) (auto simp: run_procedure_def split: prod.splits sum.splits)

lemma pool_run_step:
  "moves mw p = m # ms \<Longrightarrow> pool_run cl mw [] p = pool_run cl mw [] (apply_move cl m p)"
  by (subst pool_run_unfold) (simp add: pick_def)

lemma pool_run_stop: "moves mw p = [] \<Longrightarrow> pool_run cl mw sched p = p"
  by (subst pool_run_unfold) simp

lemma pool_runs_alone:
  "pool_run cl mw []
     \<lparr>queue = [], running = [t], finished = [], raised = None, outside = w\<rparr>
   = (case run_procedure cl t w of
        (Inl e, w') \<Rightarrow>
          \<lparr>queue = [], running = [], finished = [], raised = Some e, outside = w'\<rparr>
      | (Inr v, w') \<Rightarrow>
          \<lparr>queue = [], running = [], finished = [], raised = None,
           outside = w'\<lparr>logged := logged w' @ [Value PyNone]\<rparr>\<rparr>)"
proof (induction t arbitrary: w)
  case Nil
  let ?p0 = "\<lparr>queue = [], running = [[]], finished = [], raised = None, outside = w\<rparr>"
  let ?p1 = "\<lparr>queue = [], running = [], finished = [Inr PyNone], raised = None, outside = w\<rparr>"
  let ?p2 = "\<lparr>queue = [], running = [], finished = [], raised = None,
              outside = w\<lparr>logged := logged w @ [Value PyNone]\<rparr>\<rparr>"
  have "pool_run cl mw [] ?p0 = pool_run cl mw [] (apply_move cl (Work 0) ?p0)"
    by (rule pool_run_step [where ms = "[]"]) (simp add: moves_def)
  also have "apply_move cl (Work 0) ?p0 = ?p1" by (simp add: work_def remove_nth_def)
  also have "pool_run cl mw [] ?p1 = pool_run cl mw [] (apply_move cl (Collect 0) ?p1)"
    by (rule pool_run_step [where ms = "[]"]) (simp add: moves_def)
  also have "apply_move cl (Collect 0) ?p1 = ?p2"
    by (simp add: collect_def remove_nth_def perform_def)
  also have "pool_run cl mw [] ?p2 = ?p2" by (rule pool_run_stop) (simp add: moves_def)
  finally show ?case by (simp add: run_procedure_Nil)
next
  case (Cons a as)
  let ?p0 = "\<lparr>queue = [], running = [a # as], finished = [], raised = None, outside = w\<rparr>"
  obtain r w' where p: "perform cl a w = (r, w')" by (cases "perform cl a w")
  have step: "pool_run cl mw [] ?p0 = pool_run cl mw [] (apply_move cl (Work 0) ?p0)"
    by (rule pool_run_step [where ms = "[]"]) (simp add: moves_def)
  show ?case
  proof (cases r)
    case (Inl e)
    let ?p1 = "\<lparr>queue = [], running = [], finished = [Inl e], raised = None, outside = w'\<rparr>"
    let ?p2 = "\<lparr>queue = [], running = [], finished = [], raised = Some e, outside = w'\<rparr>"
    note step
    also have "apply_move cl (Work 0) ?p0 = ?p1"
      using p Inl by (simp add: work_def remove_nth_def)
    also have "pool_run cl mw [] ?p1 = pool_run cl mw [] (apply_move cl (Collect 0) ?p1)"
      by (rule pool_run_step [where ms = "[]"]) (simp add: moves_def)
    also have "apply_move cl (Collect 0) ?p1 = ?p2"
      by (simp add: collect_def remove_nth_def)
    also have "pool_run cl mw [] ?p2 = ?p2" by (rule pool_run_stop) (simp add: moves_def)
    finally show ?thesis using p Inl by (simp add: run_procedure_Cons)
  next
    case (Inr v)
    note step
    also have "apply_move cl (Work 0) ?p0
        = \<lparr>queue = [], running = [as], finished = [], raised = None, outside = w'\<rparr>"
      using p Inr by (simp add: work_def)
    finally show ?thesis using p Inr Cons.IH [of w'] by (simp add: run_procedure_Cons)
  qed
qed

lemma executor_runs_one_call:
  assumes "0 < mw"
  shows "pool_run cl mw [] (executor [t] w)
   = (case run_procedure cl t w of
        (Inl e, w') \<Rightarrow>
          \<lparr>queue = [], running = [], finished = [], raised = Some e, outside = w'\<rparr>
      | (Inr v, w') \<Rightarrow>
          \<lparr>queue = [], running = [], finished = [], raised = None,
           outside = w'\<lparr>logged := logged w' @ [Value PyNone]\<rparr>\<rparr>)"
proof -
  have "pool_run cl mw [] (executor [t] w)
          = pool_run cl mw [] (apply_move cl Start (executor [t] w))"
    using assms by (intro pool_run_step [where ms = "[]"]) (simp add: moves_def executor_def)
  also have "apply_move cl Start (executor [t] w)
          = \<lparr>queue = [], running = [t], finished = [], raised = None, outside = w\<rparr>"
    by (simp add: start_def executor_def)
  finally show ?thesis by (simp add: pool_runs_alone)
qed

lemma final_pool_outstanding:
  "outstanding (final_pool cl env d sched et ep tt w) = {#}"
  using final_pool_done [of cl env d sched et ep tt w]
  by (simp add: outstanding_def requests_in_Nil)

subsection \<open>Traces of the pool\<close>















subsection \<open>Requests that are sent\<close>

lemma sum_mset_remove_nth:
  fixes f :: "'a \<Rightarrow> 'b multiset"
  assumes "i < length ts"
  shows "(\<Sum>t\<leftarrow>remove_nth i ts. f t) + f (ts ! i) = (\<Sum>t\<leftarrow>ts. f t)"
proof -
  have "(\<Sum>t\<leftarrow>ts. f t) = (\<Sum>t\<leftarrow>take i ts @ ts ! i # drop (Suc i) ts. f t)"
    using id_take_nth_drop [OF assms] by simp
  then show ?thesis by (simp add: remove_nth_def)
qed

lemma sum_mset_update:
  fixes f :: "'a \<Rightarrow> 'b multiset"
  assumes "i < length ts"
  shows "(\<Sum>t\<leftarrow>ts[i := u]. f t) + f (ts ! i) = (\<Sum>t\<leftarrow>ts. f t) + f u"
proof -
  have u: "ts[i := u] = take i ts @ u # drop (Suc i) ts"
    using assms by (simp add: upd_conv_take_nth_drop)
  have "(\<Sum>t\<leftarrow>ts. f t) = (\<Sum>t\<leftarrow>take i ts @ ts ! i # drop (Suc i) ts. f t)"
    using id_take_nth_drop [OF assms] by simp
  then show ?thesis unfolding u by simp
qed

lemma move_surely_sent:
  assumes "m \<in> set (moves mw q)"
  shows "surely_sent cl q \<subseteq># surely_sent cl (apply_move cl m q)"
  using assms
proof (cases rule: move_cases [where cl = cl])
  case (start t ts)
  then show ?thesis by (simp add: surely_sent_def)
next
  case (returned i)
  with sum_mset_remove_nth [OF returned(1), of "\<lambda>t. sure_to_send cl (requests_of t)"]
  show ?thesis by (simp add: surely_sent_def)
next
  case (failed i a as e w')
  from failed(3) show ?thesis
  proof (cases rule: perform_cases)
    case (log m)
    then show ?thesis by simp
  next
    case (request rq c')
    then have "\<not> always_returns cl rq"
      unfolding always_returns_def by (metis fst_conv)
    with request(1) failed(2)
    have "sure_to_send cl (requests_of (running q ! i)) = {#rq#}" by simp
    with sum_mset_remove_nth [OF failed(1), of "\<lambda>t. sure_to_send cl (requests_of t)"]
    have "(\<Sum>t\<leftarrow>running q. sure_to_send cl (requests_of t))
            = (\<Sum>t\<leftarrow>remove_nth i (running q). sure_to_send cl (requests_of t)) + {#rq#}"
      by simp
    with failed(4) request(3) show ?thesis by (simp add: surely_sent_def)
  qed
next
  case (stepped i a as v w')
  note u = sum_mset_update [OF stepped(1), of "\<lambda>t. sure_to_send cl (requests_of t)" as]
  from stepped(3) show ?thesis
  proof (cases rule: perform_cases)
    case (log m)
    with stepped(2) u
    have "(\<Sum>t\<leftarrow>(running q)[i := as]. sure_to_send cl (requests_of t))
            = (\<Sum>t\<leftarrow>running q. sure_to_send cl (requests_of t))"
      by simp
    with stepped(4) log(3) show ?thesis by (simp add: surely_sent_def)
  next
    case (request rq c')
    show ?thesis
    proof (cases "always_returns cl rq")
      case True
      with request(1) stepped(2)
      have "sure_to_send cl (requests_of (running q ! i))
              = {#rq#} + sure_to_send cl (requests_of as)"
        by simp
      with u have "(\<Sum>t\<leftarrow>(running q)[i := as]. sure_to_send cl (requests_of t)) + {#rq#}
                     = (\<Sum>t\<leftarrow>running q. sure_to_send cl (requests_of t))"
        by simp
      with stepped(4) request(3) show ?thesis by (simp add: surely_sent_def ac_simps)
    next
      case False
      with request(1) stepped(2)
      have "sure_to_send cl (requests_of (running q ! i)) = {#rq#}" by simp
      with u have "(\<Sum>t\<leftarrow>(running q)[i := as]. sure_to_send cl (requests_of t)) + {#rq#}
                     = (\<Sum>t\<leftarrow>running q. sure_to_send cl (requests_of t))
                       + sure_to_send cl (requests_of as)"
        by simp
      with stepped(4) request(3) show ?thesis by (simp add: surely_sent_def ac_simps)
    qed
  qed
next
  case (logged j v)
  then show ?thesis by (simp add: surely_sent_def)
next
  case (reraised j e)
  then show ?thesis by (simp add: surely_sent_def)
qed

lemma move_possibly_sent:
  assumes "m \<in> set (moves mw q)"
  shows "possibly_sent cl (apply_move cl m q) \<subseteq># possibly_sent cl q"
  using assms
proof (cases rule: move_cases [where cl = cl])
  case (start t ts)
  then show ?thesis by (simp add: possibly_sent_def)
next
  case (returned i)
  with sum_mset_remove_nth [OF returned(1), of "\<lambda>t. may_send cl (requests_of t)"]
  show ?thesis by (simp add: possibly_sent_def)
next
  case (failed i a as e w')
  from failed(3) show ?thesis
  proof (cases rule: perform_cases)
    case (log m)
    then show ?thesis by simp
  next
    case (request rq c')
    have "{#rq#} \<subseteq># may_send cl (requests_of (running q ! i))"
      using request(1) failed(2) by simp
    then obtain x where x: "may_send cl (requests_of (running q ! i)) = {#rq#} + x"
      by (auto simp: mset_subset_eq_exists_conv)
    with sum_mset_remove_nth [OF failed(1), of "\<lambda>t. may_send cl (requests_of t)"]
    have "(\<Sum>t\<leftarrow>running q. may_send cl (requests_of t))
            = (\<Sum>t\<leftarrow>remove_nth i (running q). may_send cl (requests_of t)) + {#rq#} + x"
      by (simp add: ac_simps)
    with failed(4) request(3) show ?thesis by (simp add: possibly_sent_def)
  qed
next
  case (stepped i a as v w')
  note u = sum_mset_update [OF stepped(1), of "\<lambda>t. may_send cl (requests_of t)" as]
  from stepped(3) show ?thesis
  proof (cases rule: perform_cases)
    case (log m)
    with stepped(2) u
    have "(\<Sum>t\<leftarrow>(running q)[i := as]. may_send cl (requests_of t))
            = (\<Sum>t\<leftarrow>running q. may_send cl (requests_of t))"
      by simp
    with stepped(4) log(3) show ?thesis by (simp add: possibly_sent_def)
  next
    case (request rq c')
    then have "\<not> always_raises cl rq"
      unfolding always_raises_def by (metis fst_conv)
    with request(1) stepped(2)
    have "may_send cl (requests_of (running q ! i)) = {#rq#} + may_send cl (requests_of as)"
      by simp
    with u have "(\<Sum>t\<leftarrow>(running q)[i := as]. may_send cl (requests_of t)) + {#rq#}
                   = (\<Sum>t\<leftarrow>running q. may_send cl (requests_of t))"
      by simp
    with stepped(4) request(3) show ?thesis by (simp add: possibly_sent_def ac_simps)
  qed
next
  case (logged j v)
  then show ?thesis by (simp add: possibly_sent_def)
next
  case (reraised j e)
  then show ?thesis by (simp add: possibly_sent_def)
qed

lemma final_pool_surely_sent:
  fixes cl :: "'c client"
  shows "mset (sent w)
           + (\<Sum>f\<leftarrow>map fst d. sure_to_send cl (requests_of (create_lambda_alarms env f et ep tt)))
         \<subseteq># mset (sent (outside (final_pool cl env d sched et ep tt w)))"
proof -
  let ?L = "mset (sent w)
           + (\<Sum>f\<leftarrow>map fst d. sure_to_send cl (requests_of (create_lambda_alarms env f et ep tt)))"
  have "?L \<subseteq># surely_sent cl (final_pool cl env d sched et ep tt w)"
    unfolding final_pool_def
  proof (rule pool_run_invariant)
    show "?L \<subseteq># surely_sent cl (executor (submitted_calls env d et ep tt)
          (w\<lparr>logged := logged w @ [FString ''Creating alarms for '' (PyDict d)]\<rparr>))"
      by (simp add: surely_sent_def executor_def submitted_calls_def comp_def)
  next
    fix q :: "'c pool" and m
    assume "?L \<subseteq># surely_sent cl q" and "m \<in> set (moves 3 q)"
    with move_surely_sent [of m 3 q cl] show "?L \<subseteq># surely_sent cl (apply_move cl m q)"
      by (meson subset_mset.order_trans)
  qed
  then show ?thesis
    using final_pool_done [of cl env d sched et ep tt w] by (simp add: surely_sent_def)
qed

lemma final_pool_possibly_sent:
  fixes cl :: "'c client"
  shows "mset (sent (outside (final_pool cl env d sched et ep tt w)))
         \<subseteq># mset (sent w)
           + (\<Sum>f\<leftarrow>map fst d. may_send cl (requests_of (create_lambda_alarms env f et ep tt)))"
proof -
  let ?U = "mset (sent w)
           + (\<Sum>f\<leftarrow>map fst d. may_send cl (requests_of (create_lambda_alarms env f et ep tt)))"
  have "possibly_sent cl (final_pool cl env d sched et ep tt w) \<subseteq># ?U"
    unfolding final_pool_def
  proof (rule pool_run_invariant)
    show "possibly_sent cl (executor (submitted_calls env d et ep tt)
          (w\<lparr>logged := logged w @ [FString ''Creating alarms for '' (PyDict d)]\<rparr>)) \<subseteq># ?U"
      by (simp add: possibly_sent_def executor_def submitted_calls_def comp_def)
  next
    fix q :: "'c pool" and m
    assume "possibly_sent cl q \<subseteq># ?U" and "m \<in> set (moves 3 q)"
    with move_possibly_sent [of m 3 q cl] show "possibly_sent cl (apply_move cl m q) \<subseteq># ?U"
      by (meson subset_mset.order_trans)
  qed
  then show ?thesis
    using final_pool_done [of cl env d sched et ep tt w] by (simp add: possibly_sent_def)
qed

subsection \<open>Errors of the workers\<close>









subsection \<open>The driver\<close>

lemma update_alarms_parts:
  "returned (update_alarms cl env (Inr d) sched a b c w)
     = (case raised (final_pool cl env d sched (default_arg (PyFloat 1) a)
                      (default_arg (PyInt 60) b) (default_arg (PyFloat 1) c) w) of
          Some e \<Rightarrow> Inl e | None \<Rightarrow> Inr PyNone)"
  "world_after (update_alarms cl env (Inr d) sched a b c w)
     = outside (final_pool cl env d sched (default_arg (PyFloat 1) a)
                  (default_arg (PyInt 60) b) (default_arg (PyFloat 1) c) w)"
  "states_of (update_alarms cl env (Inr d) sched a b c w)
     = run_states cl env d sched (default_arg (PyFloat 1) a)
         (default_arg (PyInt 60) b) (default_arg (PyFloat 1) c) w"
  by (simp_all add: update_alarms_final_pool returned_triple world_after_triple states_of_triple)

lemma final_pool_smooth:
  fixes cl :: "'c client"
  assumes "\<forall>kw c e. fst (cl (PutMetricAlarm kw) c) \<noteq> Inl e"
  shows "raised (final_pool cl env d sched et ep tt w) = None"
    and "mset (sent (outside (final_pool cl env d sched et ep tt w)))
           = mset (sent w)
             + (\<Sum>f\<leftarrow>map fst d. mset (requests_of (create_lambda_alarms env f et ep tt)))"
proof -
  let ?p = "final_pool cl env d sched et ep tt w"
  from assms have u: "untroubled cl ?p"
    and a: "accounted ?p = mset (sent w) + requests_in (submitted_calls env d et ep tt)"
    using final_pool_untroubled [of cl env d sched et ep tt w] by blast+
  from u show "raised ?p = None" by (simp add: untroubled_def)
  have "mset (sent (outside ?p)) = accounted ?p"
    by (simp add: accounted_def final_pool_outstanding)
  with a show "mset (sent (outside ?p))
      = mset (sent w)
        + (\<Sum>f\<leftarrow>map fst d. mset (requests_of (create_lambda_alarms env f et ep tt)))"
    by (simp add: requests_in_submitted_calls)
qed

lemma create_lambda_alarms_payloads:
  "\<exists>ke kt expr thr inv.
     requests_of (create_lambda_alarms env f et ep tt)
       = [PutMetricAlarm ke, PutMetricAlarm kt]
     \<and> map_of ke ''AlarmName'' = Some (PyStr (''LambdaError_'' @ f))
     \<and> map_of ke ''Threshold'' = Some et
     \<and> map_of ke ''Period'' = Some ep
     \<and> map_of kt ''AlarmName'' = Some (PyStr (''LambdaThrottles_'' @ f))
     \<and> map_of kt ''Threshold'' = Some tt
     \<and> map_of kt ''Metrics'' = Some (PyList [expr, thr, inv])
     \<and> at_path thr [''MetricStat'', ''Period''] = Some ep
     \<and> at_path inv [''MetricStat'', ''Period''] = Some ep"
  by (simp add: create_lambda_alarms_def create_lambda_errors_alarm_def
        create_lambda_throttles_alarm_def Let_def)

section \<open>Properties of the fan-out driver\<close>




text \<open>
  Claim C8. When \<open>update_alarms\<close> is called with no argument, the error threshold is
  1.0, the period 60 and the throttle threshold 1.0, and these are the values of the
  alarm definitions it sends: for every name of the listing it sends the error alarm
  definition built from them, it sends nothing but the two definitions built from them,
  and when no call of \<open>put_metric_alarm\<close> raises it sends exactly these two for every
  name; in these definitions the thresholds are 1.0 and every period is 60.
\<close>

theorem update_alarms_defaults:
  fixes cl :: "'c client"
  shows "mset (sent w)
           + (\<Sum>f\<leftarrow>map fst d. sure_to_send cl (requests_of
                (create_lambda_alarms env f (PyFloat 1) (PyInt 60) (PyFloat 1))))
         \<subseteq># mset (sent (world_after (update_alarms cl env (Inr d) sched None None None w)))
       \<and> mset (sent (world_after (update_alarms cl env (Inr d) sched None None None w)))
         \<subseteq># mset (sent w)
             + (\<Sum>f\<leftarrow>map fst d. may_send cl (requests_of
                  (create_lambda_alarms env f (PyFloat 1) (PyInt 60) (PyFloat 1))))
       \<and> ((\<forall>kw c e. fst (cl (PutMetricAlarm kw) c) \<noteq> Inl e) \<longrightarrow>
            mset (sent (world_after (update_alarms cl env (Inr d) sched None None None w)))
              = mset (sent w)
                + (\<Sum>f\<leftarrow>map fst d. mset (requests_of
                     (create_lambda_alarms env f (PyFloat 1) (PyInt 60) (PyFloat 1)))))
       \<and> (\<forall>f. \<exists>ke kt expr thr inv.
             requests_of (create_lambda_alarms env f (PyFloat 1) (PyInt 60) (PyFloat 1))
               = [PutMetricAlarm ke, PutMetricAlarm kt]
             \<and> map_of ke ''AlarmName'' = Some (PyStr (''LambdaError_'' @ f))
             \<and> map_of ke ''Threshold'' = Some (PyFloat 1)
             \<and> map_of ke ''Period'' = Some (PyInt 60)
             \<and> map_of kt ''AlarmName'' = Some (PyStr (''LambdaThrottles_'' @ f))
             \<and> map_of kt ''Threshold'' = Some (PyFloat 1)
             \<and> map_of kt ''Metrics'' = Some (PyList [expr, thr, inv])
             \<and> at_path thr [''MetricStat'', ''Period''] = Some (PyInt 60)
             \<and> at_path inv [''MetricStat'', ''Period''] = Some (PyInt 60))"
proof -
  have lower: "mset (sent w)
           + (\<Sum>f\<leftarrow>map fst d. sure_to_send cl (requests_of
                (create_lambda_alarms env f (PyFloat 1) (PyInt 60) (PyFloat 1))))
         \<subseteq># mset (sent (world_after (update_alarms cl env (Inr d) sched None None None w)))"
    using final_pool_surely_sent
      [where cl = cl and env = env and d = d and sched = sched and et = "PyFloat 1"
         and ep = "PyInt 60" and tt = "PyFloat 1" and w = w]
    by (simp add: update_alarms_parts default_arg_def)
  have upper: "mset (sent (world_after (update_alarms cl env (Inr d) sched None None None w)))
         \<subseteq># mset (sent w)
             + (\<Sum>f\<leftarrow>map fst d. may_send cl (requests_of
                  (create_lambda_alarms env f (PyFloat 1) (PyInt 60) (PyFloat 1))))"
    using final_pool_possibly_sent
      [where cl = cl and env = env and d = d and sched = sched and et = "PyFloat 1"
         and ep = "PyInt 60" and tt = "PyFloat 1" and w = w]
    by (simp add: update_alarms_parts default_arg_def)
  have smooth: "mset (sent (world_after (update_alarms cl env (Inr d) sched None None None w)))
              = mset (sent w)
                + (\<Sum>f\<leftarrow>map fst d. mset (requests_of
                     (create_lambda_alarms env f (PyFloat 1) (PyInt 60) (PyFloat 1))))"
    if "\<forall>kw c e. fst (cl (PutMetricAlarm kw) c) \<noteq> Inl e"
    using final_pool_smooth(2) [OF that,
        where env = env and d = d and sched = sched and et = "PyFloat 1"
          and ep = "PyInt 60" and tt = "PyFloat 1" and w = w]
    by (simp add: update_alarms_parts default_arg_def)
  from lower upper smooth
    create_lambda_alarms_payloads [of env _ "PyFloat 1" "PyInt 60" "PyFloat 1"]
  show ?thesis by blast
qed

theorem update_alarms_defaults_witness:
  "mset (sent (world_after (update_alarms accepting
       [''SNS_ALARMS_TOPIC'' \<mapsto> ''arn:aws:sns:eu-west-1:1:alarms'']
       (Inr [(''f'', PyDict [])]) [2, 1] None None None \<lparr>cloud = (), sent = [], logged = []\<rparr>)))
     = mset (requests_of (create_lambda_alarms
          [''SNS_ALARMS_TOPIC'' \<mapsto> ''arn:aws:sns:eu-west-1:1:alarms''] ''f''
          (PyFloat 1) (PyInt 60) (PyFloat 1)))"
proof -
  have ok: "\<forall>kw c e. fst (accepting (PutMetricAlarm kw) c) \<noteq> Inl e"
    by (simp add: accepting_def)
  from update_alarms_defaults
      [where cl = accepting
         and env = "[''SNS_ALARMS_TOPIC'' \<mapsto> ''arn:aws:sns:eu-west-1:1:alarms'']"
         and d = "[(''f'', PyDict [])]" and sched = "[2, 1]"
         and w = "\<lparr>cloud = (), sent = [], logged = []\<rparr>"]
    ok
  show ?thesis by simp
qed




end
